theory Spec2Isabelle
  imports Complex_Main
begin

section \<open>Exceptions, responses, the environment\<close>

text \<open>
  The Python exceptions that \<^verbatim>\<open>client.py\<close> raises, catches or tells apart, all of
  them subclasses of \<^verbatim>\<open>Exception\<close>. \<open>Timeout\<close> is
  \<^verbatim>\<open>requests.exceptions.Timeout\<close>, a subclass of
  \<^verbatim>\<open>requests.exceptions.RequestException\<close>; \<open>RequestException\<close> stands for every
  other instance of that class (a connection error, say). A plain \<^verbatim>\<open>Exception(msg)\<close>
  keeps its message, since the breaker raises two of them that differ by the message
  only. Time is a real number: the rounding of floating-point arithmetic is left out.
\<close>

datatype exn =
    Timeout
  | RequestException
  | TypeError
  | KeyError
  | ValueError
  | AttributeError
  | Exception string

text \<open>\<^verbatim>\<open>isinstance(e, requests.exceptions.RequestException)\<close>, the test of the
  \<^verbatim>\<open>except\<close> clause of the retry decorator.\<close>

fun is_request_exception :: "exn \<Rightarrow> bool" where
  "is_request_exception Timeout = True"
| "is_request_exception RequestException = True"
| "is_request_exception _ = False"

text \<open>
  A response of \<^verbatim>\<open>requests.get\<close>: its status code, and what evaluating
  \<^verbatim>\<open>response.json()['message']\<close> gives (the message, or the exception raised by a
  body that is not JSON or has no such key).
\<close>

record response =
  status_code :: int
  json_message :: "exn + string"

datatype level = INFO | WARNING | ERROR | CRITICAL

text \<open>
  What a run does besides returning: it invokes the operation it was given, it sleeps,
  it writes log records. The trace lists these in order.
\<close>

datatype event = Invoked | Slept real | Logged level string

text \<open>
  The outside world is a value of any type \<open>'w\<close>; the library calls the program makes
  are functions on it. Reading the clock, drawing a random number and performing a
  request may all change the world.
\<close>

record 'w env =
  time_time :: "'w \<Rightarrow> real \<times> 'w"
  random_uniform :: "real \<Rightarrow> real \<Rightarrow> 'w \<Rightarrow> real \<times> 'w"
  time_sleep :: "real \<Rightarrow> 'w \<Rightarrow> 'w"
  requests_get :: "string \<Rightarrow> 'w \<Rightarrow> (exn + response) \<times> 'w"

type_synonym 'w st = "'w \<times> event list"

definition log :: "level \<Rightarrow> string \<Rightarrow> 'w st \<Rightarrow> 'w st" where
  "log lvl msg s = (fst s, snd s @ [Logged lvl msg])"

text \<open>Python's \<^verbatim>\<open>str\<close> on an integer, used by the f-strings.\<close>

fun str_nat :: "nat \<Rightarrow> string" where
  "str_nat n =
     (if n < 10 then [''0123456789'' ! n]
      else str_nat (n div 10) @ [''0123456789'' ! (n mod 10)])"

definition str_int :: "int \<Rightarrow> string" where
  "str_int i = (if i < 0 then CHR ''-'' # str_nat (nat (- i)) else str_nat (nat i))"

section \<open>The circuit breaker\<close>

datatype cb_state = CLOSED | OPEN | HALF_OPEN

record CircuitBreaker =
  failure_threshold :: int
  recovery_timeout :: real
  failure_count :: int
  state :: cb_state
  last_failure_time :: "real option"

text \<open>\<^verbatim>\<open>CircuitBreaker.__init__\<close>\<close>

definition CircuitBreaker_init :: "int \<Rightarrow> real \<Rightarrow> CircuitBreaker" where
  "CircuitBreaker_init failure_threshold' recovery_timeout' =
     \<lparr> failure_threshold = failure_threshold',
       recovery_timeout = recovery_timeout',
       failure_count = 0,
       state = CLOSED,
       last_failure_time = None \<rparr>"

text \<open>
  The exception of the fail-fast branch, \<^verbatim>\<open>Exception("CircuitBreaker is OPEN")\<close>,
  and the one raised for a response with status 500 or more.
\<close>

definition CircuitOpenError :: exn where
  "CircuitOpenError = Exception ''CircuitBreaker is OPEN''"

definition ServerError :: "int \<Rightarrow> exn" where
  "ServerError code = Exception (''Server Error '' @ str_int code)"

text \<open>
  \<^verbatim>\<open>CircuitBreaker.call\<close>, first part (the \<^verbatim>\<open>if self.state == "OPEN"\<close> block): the
  breaker the \<^verbatim>\<open>try\<close> block starts from, or the exception that ends the call.
  With no \<^verbatim>\<open>last_failure_time\<close> the subtraction \<^verbatim>\<open>time.time() - None\<close> raises
  \<^verbatim>\<open>TypeError\<close>.
\<close>

definition gate :: "'w env \<Rightarrow> CircuitBreaker \<Rightarrow> 'w st \<Rightarrow> (exn + CircuitBreaker) \<times> 'w st" where
  "gate env cb s =
     (if state cb = OPEN then
        (case time_time env (fst s) of (now, w1) \<Rightarrow>
           (case last_failure_time cb of
              None \<Rightarrow> (Inl TypeError, (w1, snd s))
            | Some t \<Rightarrow>
                if now - t > recovery_timeout cb
                then (Inr (cb\<lparr>state := HALF_OPEN\<rparr>),
                      log WARNING ''Circuit breaker transitioning to HALF_OPEN to test the waters...''
                        (w1, snd s))
                else (Inl CircuitOpenError,
                      log ERROR ''Circuit is OPEN. Failing fast to prevent cascading failure.''
                        (w1, snd s))))
      else (Inr cb, s))"

text \<open>
  Second part (the \<^verbatim>\<open>try\<close>/\<^verbatim>\<open>except\<close> block): the operation is invoked; a response with
  status 500 or more raises inside \<^verbatim>\<open>try\<close>; \<^verbatim>\<open>except Exception\<close> counts the failure
  and raises it again.
\<close>

definition check_status :: "exn + response \<Rightarrow> exn + response" where
  "check_status out =
     (case out of
        Inl e \<Rightarrow> Inl e
      | Inr r \<Rightarrow> if status_code r \<ge> 500 then Inl (ServerError (status_code r)) else Inr r)"

definition attempt ::
  "'w env \<Rightarrow> ('w \<Rightarrow> (exn + response) \<times> 'w) \<Rightarrow> CircuitBreaker \<Rightarrow> 'w st
     \<Rightarrow> (exn + response) \<times> CircuitBreaker \<times> 'w st" where
  "attempt env func cb s =
     (case func (fst s) of (out, w1) \<Rightarrow>
        (case check_status out of
           Inr r \<Rightarrow> (Inr r, cb\<lparr>failure_count := 0, state := CLOSED\<rparr>, (w1, snd s @ [Invoked]))
         | Inl e \<Rightarrow>
             (case time_time env w1 of (now, w2) \<Rightarrow>
                let cb1 = cb\<lparr>failure_count := failure_count cb + 1, last_failure_time := Some now\<rparr>;
                    s2 = log ERROR (''Request failed. Failure count: '' @ str_int (failure_count cb1))
                           (w2, snd s @ [Invoked])
                in if failure_count cb1 \<ge> failure_threshold cb1
                   then (Inl e, cb1\<lparr>state := OPEN\<rparr>,
                         log CRITICAL ''Failure threshold reached! Tripping the Circuit Breaker to OPEN.'' s2)
                   else (Inl e, cb1, s2))))"

definition call ::
  "'w env \<Rightarrow> ('w \<Rightarrow> (exn + response) \<times> 'w) \<Rightarrow> CircuitBreaker \<Rightarrow> 'w st
     \<Rightarrow> (exn + response) \<times> CircuitBreaker \<times> 'w st" where
  "call env func cb s =
     (case gate env cb s of
        (Inl e, s1) \<Rightarrow> (Inl e, cb, s1)
      | (Inr cb1, s1) \<Rightarrow> attempt env func cb1 s1)"

text \<open>
  A sequence of calls on one breaker, one operation per call, each call starting from the
  breaker and the world the previous one left: the results in order, the final breaker,
  the final world and trace.
\<close>

fun calls ::
  "'w env \<Rightarrow> ('w \<Rightarrow> (exn + response) \<times> 'w) list \<Rightarrow> CircuitBreaker \<Rightarrow> 'w st
     \<Rightarrow> (exn + response) list \<times> CircuitBreaker \<times> 'w st" where
  "calls env [] cb s = ([], cb, s)"
| "calls env (f # fs) cb s =
     (case call env f cb s of (r, cb1, s1) \<Rightarrow>
        (case calls env fs cb1 s1 of (rs, cb2, s2) \<Rightarrow> (r # rs, cb2, s2)))"

section \<open>Retry with exponential backoff and jitter\<close>

text \<open>Python's \<^verbatim>\<open>2 ** k\<close> on an integer \<open>k\<close>: a float below one when \<open>k\<close> is negative.\<close>

definition pow2 :: "int \<Rightarrow> real" where
  "pow2 k = (if 0 \<le> k then 2 ^ nat k else 1 / 2 ^ nat (- k))"

text \<open>\<^verbatim>\<open>delay = min(base_delay * (2 ** (retries - 1)), max_delay)\<close>\<close>

definition backoff_delay :: "real \<Rightarrow> real \<Rightarrow> int \<Rightarrow> real" where
  "backoff_delay base_delay max_delay retries = min (base_delay * pow2 (retries - 1)) max_delay"

text \<open>
  The \<^verbatim>\<open>while retries <= max_retries\<close> loop of \<^verbatim>\<open>wrapper\<close>, from a given value of
  \<^verbatim>\<open>retries\<close>. The operation takes the keyword argument \<^verbatim>\<open>timeout\<close> the wrapper adds
  to every call. An exception that is no \<^verbatim>\<open>RequestException\<close> leaves the loop at once;
  a loop that ends without \<^verbatim>\<open>return\<close> makes the wrapper return \<^verbatim>\<open>None\<close>. The
  rendering \<^verbatim>\<open>{total_delay:.2f}\<close> of the log message is left as it is written; the
  number slept is in the \<open>Slept\<close> event.
\<close>

function wrapper_loop ::
  "'w env \<Rightarrow> int \<Rightarrow> real \<Rightarrow> real \<Rightarrow> (int option \<Rightarrow> 'w \<Rightarrow> (exn + 'r) \<times> 'w) \<Rightarrow> int \<Rightarrow> 'w st
     \<Rightarrow> (exn + 'r option) \<times> 'w st" where
  "wrapper_loop env max_retries base_delay max_delay func retries s =
     (if retries \<le> max_retries then
        (case func (Some 3) (fst s) of (out, w1) \<Rightarrow>
           (case out of
              Inr r \<Rightarrow> (Inr (Some r), (w1, snd s @ [Invoked]))
            | Inl e \<Rightarrow>
                if is_request_exception e then
                  (if retries + 1 > max_retries then
                     (Inl e,
                      log ERROR (''Max retries ('' @ str_int max_retries @ '') exhausted. Giving up.'')
                        (w1, snd s @ [Invoked]))
                   else
                     (case random_uniform env 0 0.5 w1 of (jitter, w2) \<Rightarrow>
                        let total_delay = backoff_delay base_delay max_delay (retries + 1) + jitter;
                            s2 = log WARNING
                                   (''Timeout/Error occurred. Retrying in {total_delay:.2f} seconds... (Attempt ''
                                      @ str_int (retries + 1) @ ''/'' @ str_int max_retries @ '')'')
                                   (w2, snd s @ [Invoked])
                        in wrapper_loop env max_retries base_delay max_delay func (retries + 1)
                             (time_sleep env total_delay (fst s2), snd s2 @ [Slept total_delay])))
                else (Inl e, (w1, snd s @ [Invoked]))))
      else (Inr None, s))"
  by pat_completeness auto
termination
  by (relation "measure (\<lambda>(env, max_retries, base_delay, max_delay, func, retries, s).
                   nat (max_retries + 1 - retries))") auto

declare wrapper_loop.simps [simp del]

text \<open>\<^verbatim>\<open>exponential_backoff_retry(max_retries, base_delay, max_delay)(func)\<close>: the wrapper.\<close>

definition exponential_backoff_retry ::
  "'w env \<Rightarrow> int \<Rightarrow> real \<Rightarrow> real \<Rightarrow> (int option \<Rightarrow> 'w \<Rightarrow> (exn + 'r) \<times> 'w) \<Rightarrow> 'w st
     \<Rightarrow> (exn + 'r option) \<times> 'w st" where
  "exponential_backoff_retry env max_retries base_delay max_delay func s =
     wrapper_loop env max_retries base_delay max_delay func 0 s"

section \<open>The application\<close>

record ECommerceApp =
  base_url :: string
  unreliable_circuit_breaker :: CircuitBreaker
  system_load :: int

definition ECommerceApp_init :: "string \<Rightarrow> ECommerceApp" where
  "ECommerceApp_init url =
     \<lparr> base_url = url,
       unreliable_circuit_breaker = CircuitBreaker_init 2 5,
       system_load = 0 \<rparr>"

text \<open>\<^verbatim>\<open>response.json()['message']\<close> on what a call gave; on \<^verbatim>\<open>None\<close> the attribute
  \<^verbatim>\<open>json\<close> is missing.\<close>

definition message_of :: "exn + response \<Rightarrow> exn + string" where
  "message_of out = (case out of Inl e \<Rightarrow> Inl e | Inr r \<Rightarrow> json_message r)"

definition message_of_opt :: "exn + response option \<Rightarrow> exn + string" where
  "message_of_opt out =
     (case out of Inl e \<Rightarrow> Inl e | Inr None \<Rightarrow> Inl AttributeError | Inr (Some r) \<Rightarrow> json_message r)"

text \<open>
  The three methods return \<^verbatim>\<open>None\<close> or raise: the result is \<open>Inr ()\<close> or \<open>Inl e\<close>,
  with the application object and the world as the method leaves them.
\<close>

definition view_product :: "'w env \<Rightarrow> ECommerceApp \<Rightarrow> 'w st \<Rightarrow> (exn + unit) \<times> ECommerceApp \<times> 'w st" where
  "view_product env app s =
     (let s1 = log INFO ''--- Fetching Tier 1 (Product Info) ---'' s
      in case requests_get env (base_url app @ ''/healthy'') (fst s1) of (out, w1) \<Rightarrow>
           (case message_of out of
              Inr m \<Rightarrow> (Inr (), app, log INFO (''Success: '' @ m) (w1, snd s1 @ [Invoked]))
            | Inl e \<Rightarrow> (Inr (), app,
                        log CRITICAL ''Tier 1 Failed! Entire site is down.'' (w1, snd s1 @ [Invoked]))))"

definition load_reviews :: "'w env \<Rightarrow> ECommerceApp \<Rightarrow> 'w st \<Rightarrow> (exn + unit) \<times> ECommerceApp \<times> 'w st" where
  "load_reviews env app s =
     (let s1 = log INFO ''--- Fetching Tier 2 (User Reviews) ---'' s
      in case call env (requests_get env (base_url app @ ''/unreliable''))
                (unreliable_circuit_breaker app) s1 of (out, cb, s2) \<Rightarrow>
           (case message_of out of
              Inr m \<Rightarrow> (Inr (), app\<lparr>unreliable_circuit_breaker := cb\<rparr>,
                        log INFO (''Success: '' @ m) s2)
            | Inl e \<Rightarrow> (Inr (), app\<lparr>unreliable_circuit_breaker := cb\<rparr>,
                        log INFO ''Fallback activated: Displaying cached user reviews instead of live data.'' s2)))"

text \<open>
  The method under the decorator, \<^verbatim>\<open>def fetch_recommendations_with_retry(self)\<close>: it has
  no parameter \<^verbatim>\<open>timeout\<close>, so a call that passes this keyword raises \<^verbatim>\<open>TypeError\<close>
  before the body runs.
\<close>

definition fetch_recommendations_func ::
  "'w env \<Rightarrow> ECommerceApp \<Rightarrow> int option \<Rightarrow> 'w \<Rightarrow> (exn + response) \<times> 'w" where
  "fetch_recommendations_func env app timeout w =
     (case timeout of
        Some t \<Rightarrow> (Inl TypeError, w)
      | None \<Rightarrow> requests_get env (base_url app @ ''/slow'') w)"

text \<open>The decorated method: \<^verbatim>\<open>@exponential_backoff_retry(max_retries=3)\<close>, with the
  defaults \<^verbatim>\<open>base_delay=1, max_delay=8\<close>.\<close>

definition fetch_recommendations_with_retry ::
  "'w env \<Rightarrow> ECommerceApp \<Rightarrow> 'w st \<Rightarrow> (exn + response option) \<times> 'w st" where
  "fetch_recommendations_with_retry env app s =
     exponential_backoff_retry env 3 1 8 (fetch_recommendations_func env app) s"

definition load_recommendations ::
  "'w env \<Rightarrow> ECommerceApp \<Rightarrow> 'w st \<Rightarrow> (exn + unit) \<times> ECommerceApp \<times> 'w st" where
  "load_recommendations env app s =
     (let s1 = log INFO ''--- Fetching Tier 3 (Recommendations) ---'' s
      in if system_load app > 80 then
           (Inr (), app,
            log WARNING ''Load shedding active! System under heavy load. Gracefully disabling recommendations.'' s1)
         else
           (case fetch_recommendations_with_retry env app s1 of (out, s2) \<Rightarrow>
              (case message_of_opt out of
                 Inr m \<Rightarrow> (Inr (), app, log INFO (''Success: '' @ m) s2)
               | Inl e \<Rightarrow> (Inr (), app,
                           log INFO ''Graceful degradation: Recommendations area hidden from UI.'' s2))))"

text \<open>
  What holds of a breaker between two calls, once its threshold is positive: it is
  closed below the threshold, or open at or above it with the time of the last failure
  recorded.
\<close>

definition breaker_inv :: "CircuitBreaker \<Rightarrow> bool" where
  "breaker_inv cb \<longleftrightarrow> 0 < failure_threshold cb \<and>
    (state cb = CLOSED \<and> failure_count cb < failure_threshold cb \<and> 0 \<le> failure_count cb
     \<or> state cb = OPEN \<and> failure_threshold cb \<le> failure_count cb \<and> last_failure_time cb \<noteq> None)"

section \<open>A simulated environment\<close>

text \<open>
  An environment to run the definitions on: the world is the reading of the clock, a
  request takes one second and has the given outcome, a sleep takes the time asked for,
  and the random number drawn is the middle of the interval.
\<close>

definition sim_env :: "(exn + response) \<Rightarrow> real env" where
  "sim_env out =
     \<lparr> time_time = (\<lambda>w. (w, w)),
       random_uniform = (\<lambda>a b w. ((a + b) / 2, w)),
       time_sleep = (\<lambda>d w. w + d),
       requests_get = (\<lambda>url w. (out, w + 1)) \<rparr>"

section \<open>The mock endpoints\<close>

text \<open>
  The answers of the three handlers of \<^verbatim>\<open>lambda_api.py\<close>, as the client reads them:
  the status code, and the \<^verbatim>\<open>message\<close> of the JSON body (the body of the failing
  answer has no such key). The unreliable handler takes the number that
  \<^verbatim>\<open>random.random()\<close> gave it.
\<close>

definition healthy_handler :: response where
  "healthy_handler = \<lparr> status_code = 200, json_message = Inr ''Critical data retrieved successfully.'' \<rparr>"

definition unreliable_handler :: "real \<Rightarrow> response" where
  "unreliable_handler r =
     (if r < 0.5 then \<lparr> status_code = 500, json_message = Inl KeyError \<rparr>
      else \<lparr> status_code = 200, json_message = Inr ''User reviews loaded (you got lucky).'' \<rparr>)"

definition slow_handler :: response where
  "slow_handler = \<lparr> status_code = 200, json_message = Inr ''Personalized recommendations generated.'' \<rparr>"

section \<open>The breaker: one call\<close>

lemma gate_cases:
  assumes "gate env cb s = (Inr cb1, s1)"
  shows "cb1 = cb \<and> state cb \<noteq> OPEN \<and> s1 = s
       \<or> cb1 = cb\<lparr>state := HALF_OPEN\<rparr> \<and> state cb = OPEN"
  using assms
  by (auto simp: gate_def split: if_splits prod.splits option.splits)

lemma attempt_success:
  assumes "func (fst s) = (out, w1)" and "check_status out = Inr r"
  shows "attempt env func cb s
       = (Inr r, cb\<lparr>failure_count := 0, state := CLOSED\<rparr>, (w1, snd s @ [Invoked]))"
  using assms by (simp add: attempt_def)

lemma attempt_failure:
  assumes "func (fst s) = (out, w1)" and "check_status out = Inl e"
    and "time_time env w1 = (now, w2)"
  shows "attempt env func cb s
       = (Inl e,
          cb\<lparr>failure_count := failure_count cb + 1, last_failure_time := Some now,
             state := (if failure_count cb + 1 \<ge> failure_threshold cb then OPEN else state cb)\<rparr>,
          (w2, snd s @ [Invoked, Logged ERROR (''Request failed. Failure count: '' @ str_int (failure_count cb + 1))]
                @ (if failure_count cb + 1 \<ge> failure_threshold cb
                   then [Logged CRITICAL ''Failure threshold reached! Tripping the Circuit Breaker to OPEN.'']
                   else [])))"
  using assms by (simp add: attempt_def Let_def log_def)

lemma attempt_result:
  assumes "attempt env func cb s = (r, cb', s')"
  shows "(\<exists>x. r = Inr x \<and> cb' = cb\<lparr>failure_count := 0, state := CLOSED\<rparr>)
       \<or> (\<exists>e now. r = Inl e \<and> cb' = cb\<lparr>failure_count := failure_count cb + 1, last_failure_time := Some now,
             state := (if failure_count cb + 1 \<ge> failure_threshold cb then OPEN else state cb)\<rparr>)"
proof -
  obtain out w1 where f: "func (fst s) = (out, w1)" by (cases "func (fst s)")
  obtain now w2 where t: "time_time env w1 = (now, w2)" by (cases "time_time env w1")
  show ?thesis
  proof (cases "check_status out")
    case (Inl e)
    from attempt_failure [of func s out w1 e env now w2 cb] f Inl t assms show ?thesis by auto
  next
    case (Inr x)
    from attempt_success [of func s out w1 x env cb] f Inr assms show ?thesis by auto
  qed
qed

text \<open>
  The three ways a call ends: rejected before the operation is invoked (the breaker is
  left as it was), success, failure of the operation.
\<close>

lemma call_result:
  assumes "call env func cb s = (r, cb', s')"
  shows "(\<exists>e. r = Inl e \<and> cb' = cb \<and> state cb = OPEN)
       \<or> (\<exists>x. r = Inr x \<and> cb' = cb\<lparr>failure_count := 0, state := CLOSED\<rparr>)
       \<or> (\<exists>e now. r = Inl e \<and>
             cb' = cb\<lparr>failure_count := failure_count cb + 1, last_failure_time := Some now,
                      state := (if failure_count cb + 1 \<ge> failure_threshold cb then OPEN
                                else if state cb = OPEN then HALF_OPEN else state cb)\<rparr>)"
proof -
  obtain g s1 where Pair: "gate env cb s = (g, s1)" by (cases "gate env cb s")
  show ?thesis
  proof (cases g)
    case (Inl e)
    with Pair assms have "r = Inl e \<and> cb' = cb" by (simp add: call_def)
    moreover from Pair Inl have "state cb = OPEN"
      by (auto simp: gate_def split: if_splits)
    ultimately show ?thesis by blast
  next
    case (Inr cb1)
    with Pair assms have a: "attempt env func cb1 s1 = (r, cb', s')" by (simp add: call_def)
    from Pair Inr have "gate env cb s = (Inr cb1, s1)" by simp
    from gate_cases [OF this] attempt_result [OF a] show ?thesis by auto
  qed
qed

lemma call_fields:
  assumes "call env func cb s = (r, cb', s')"
  shows "failure_threshold cb' = failure_threshold cb \<and> recovery_timeout cb' = recovery_timeout cb"
  using call_result [OF assms] by auto

section \<open>The breaker: sequences of calls\<close>

lemma calls_invariant:
  assumes step: "\<And>f cb s r cb' s'. P cb \<Longrightarrow> call env f cb s = (r, cb', s') \<Longrightarrow> P cb'"
    and "P cb" and "calls env fs cb s = (rs, cb', s')"
  shows "P cb'"
  using assms(2,3)
proof (induction fs arbitrary: cb s rs)
  case Nil
  then show ?case by simp
next
  case (Cons f fs)
  obtain r cb1 s1 where c: "call env f cb s = (r, cb1, s1)" by (cases "call env f cb s")
  obtain rs1 cb2 s2 where d: "calls env fs cb1 s1 = (rs1, cb2, s2)" by (cases "calls env fs cb1 s1")
  from Cons.prems(2) c d have "cb2 = cb' \<and> s2 = s'" by simp
  with d have "calls env fs cb1 s1 = (rs1, cb', s')" by simp
  from Cons.IH [OF step [OF Cons.prems(1) c] this] show ?case .
qed


text \<open>Three properties that every call preserves.\<close>

lemma open_has_time_call:
  assumes "state cb = OPEN \<longrightarrow> last_failure_time cb \<noteq> None"
    and "call env f cb s = (r, cb', s')"
  shows "state cb' = OPEN \<longrightarrow> last_failure_time cb' \<noteq> None"
  using call_result [OF assms(2)] assms(1) by (auto split: if_splits)

lemma tripped_call:
  assumes "failure_threshold cb = thr \<and> (state cb \<noteq> CLOSED \<longrightarrow> thr \<le> failure_count cb)"
    and "call env f cb s = (r, cb', s')"
  shows "failure_threshold cb' = thr \<and> (state cb' \<noteq> CLOSED \<longrightarrow> thr \<le> failure_count cb')"
  using call_result [OF assms(2)] assms(1) by (auto split: if_splits)

lemma closed_call:
  assumes "failure_threshold cb = thr \<and> 0 < thr \<and> (state cb = CLOSED \<longrightarrow> failure_count cb < thr)"
    and "call env f cb s = (r, cb', s')"
  shows "failure_threshold cb' = thr \<and> 0 < thr \<and> (state cb' = CLOSED \<longrightarrow> failure_count cb' < thr)"
  using call_result [OF assms(2)] assms(1) by (auto split: if_splits)

lemma tripped_calls:
  assumes "calls env fs (CircuitBreaker_init thr rt) s = (rs, cb, s')"
  shows "failure_threshold cb = thr \<and> (state cb \<noteq> CLOSED \<longrightarrow> thr \<le> failure_count cb)"
  by (rule calls_invariant
        [where P = "\<lambda>cb. failure_threshold cb = thr \<and> (state cb \<noteq> CLOSED \<longrightarrow> thr \<le> failure_count cb)",
         OF _ _ assms])
     (erule (1) tripped_call, simp add: CircuitBreaker_init_def)

lemma breaker_inv_init: "0 < thr \<Longrightarrow> breaker_inv (CircuitBreaker_init thr rt)"
  by (simp add: breaker_inv_def CircuitBreaker_init_def)

lemma breaker_inv_call:
  assumes "breaker_inv cb" and "call env func cb s = (r, cb', s')"
  shows "breaker_inv cb'"
  using call_result [OF assms(2)] assms(1)
  by (auto simp: breaker_inv_def split: if_splits)

text \<open>A call that ends with an exception leaves the breaker open, or closed with one
  more failure counted.\<close>

lemma failed_call_step:
  assumes "breaker_inv cb" and "call env func cb s = (r, cb', s')" and "isl r"
  shows "state cb' = OPEN
       \<or> state cb = CLOSED \<and> state cb' = CLOSED \<and> failure_count cb' = failure_count cb + 1"
  using call_result [OF assms(2)] assms(1,3)
  by (auto simp: breaker_inv_def split: if_splits)

lemma failed_call_open:
  assumes "breaker_inv cb" and "call env func cb s = (r, cb', s')" and "isl r"
    and "state cb = OPEN"
  shows "state cb' = OPEN"
  using failed_call_step [OF assms(1,2,3)] assms(4) by auto

lemma failing_from_open:
  assumes "breaker_inv cb" and "state cb = OPEN" and "calls env fs cb s = (rs, cb', s')"
    and "\<forall>r \<in> set rs. isl r"
  shows "state cb' = OPEN"
  using assms
proof (induction fs arbitrary: cb s rs)
  case Nil
  then show ?case by simp
next
  case (Cons f fs)
  obtain r cb1 s1 where c: "call env f cb s = (r, cb1, s1)" by (cases "call env f cb s")
  obtain rs1 cb2 s2 where d: "calls env fs cb1 s1 = (rs1, cb2, s2)" by (cases "calls env fs cb1 s1")
  from Cons.prems(3) c d have e: "rs = r # rs1 \<and> cb2 = cb' \<and> s2 = s'" by auto
  with Cons.prems(4) have r: "isl r" and rs1: "\<forall>r \<in> set rs1. isl r" by auto
  from d e have d': "calls env fs cb1 s1 = (rs1, cb', s')" by simp
  from Cons.IH [OF breaker_inv_call [OF Cons.prems(1) c]
                   failed_call_open [OF Cons.prems(1) c r Cons.prems(2)] d' rs1]
  show ?case .
qed

lemma failing_run:
  assumes "breaker_inv cb" and "calls env fs cb s = (rs, cb', s')" and "\<forall>r \<in> set rs. isl r"
  shows "state cb' = OPEN
       \<or> state cb' = CLOSED \<and> failure_count cb' = failure_count cb + int (length fs)"
  using assms
proof (induction fs arbitrary: cb s rs)
  case Nil
  then show ?case by (auto simp: breaker_inv_def)
next
  case (Cons f fs)
  obtain r cb1 s1 where c: "call env f cb s = (r, cb1, s1)" by (cases "call env f cb s")
  obtain rs1 cb2 s2 where d: "calls env fs cb1 s1 = (rs1, cb2, s2)" by (cases "calls env fs cb1 s1")
  from Cons.prems(2) c d have e: "rs = r # rs1 \<and> cb2 = cb' \<and> s2 = s'" by auto
  with Cons.prems(3) have r: "isl r" and rs1: "\<forall>r \<in> set rs1. isl r" by auto
  from d e have d': "calls env fs cb1 s1 = (rs1, cb', s')" by simp
  note inv1 = breaker_inv_call [OF Cons.prems(1) c]
  from failed_call_step [OF Cons.prems(1) c r] show ?case
  proof
    assume "state cb1 = OPEN"
    from failing_from_open [OF inv1 this d' rs1] show ?thesis by simp
  next
    assume "state cb = CLOSED \<and> state cb1 = CLOSED \<and> failure_count cb1 = failure_count cb + 1"
    with Cons.IH [OF inv1 d' rs1] show ?thesis by auto
  qed
qed

text \<open>The equations that evaluate the breaker on the simulated environment.\<close>

lemmas breaker_eval =
  call_def gate_def attempt_def check_status_def log_def sim_env_def CircuitBreaker_init_def
  Let_def str_int_def ServerError_def unreliable_handler_def healthy_handler_def

section \<open>The breaker's invariants\<close>

text \<open>
  C9. Every state a breaker reaches from its initial state, by any sequence of calls in
  any environment, satisfies: open implies that the time of the last failure is set, and
  closed implies that the failure count is below the threshold, for a positive
  threshold. This holds between calls and also of the breaker the \<^verbatim>\<open>try\<close> block of
  the next call starts from (the state inside a call, after the \<^verbatim>\<open>OPEN\<close> check).
\<close>

theorem breaker_invariant:
  assumes "0 < thr" and "calls env fs (CircuitBreaker_init thr rt) s = (rs, cb, s')"
  shows "(state cb = OPEN \<longrightarrow> last_failure_time cb \<noteq> None)
       \<and> (state cb = CLOSED \<longrightarrow> failure_count cb < failure_threshold cb)
       \<and> (\<forall>s0 cb1 s1. gate env cb s0 = (Inr cb1, s1) \<longrightarrow>
             (state cb1 = OPEN \<longrightarrow> last_failure_time cb1 \<noteq> None)
           \<and> (state cb1 = CLOSED \<longrightarrow> failure_count cb1 < failure_threshold cb1))"
proof -
  have a: "state cb = OPEN \<longrightarrow> last_failure_time cb \<noteq> None"
    by (rule calls_invariant
          [where P = "\<lambda>cb. state cb = OPEN \<longrightarrow> last_failure_time cb \<noteq> None", OF _ _ assms(2)])
       (erule (1) open_has_time_call, simp add: CircuitBreaker_init_def)
  have b: "failure_threshold cb = thr \<and> 0 < thr \<and> (state cb = CLOSED \<longrightarrow> failure_count cb < thr)"
    by (rule calls_invariant
          [where P = "\<lambda>cb. failure_threshold cb = thr \<and> 0 < thr
                              \<and> (state cb = CLOSED \<longrightarrow> failure_count cb < thr)", OF _ _ assms(2)])
       (erule (1) closed_call, simp add: CircuitBreaker_init_def assms(1))
  have c: "(state cb1 = OPEN \<longrightarrow> last_failure_time cb1 \<noteq> None)
           \<and> (state cb1 = CLOSED \<longrightarrow> failure_count cb1 < failure_threshold cb1)"
    if "gate env cb s0 = (Inr cb1, s1)" for s0 cb1 s1
    using gate_cases [OF that] a b by auto
  from a b c show ?thesis by blast
qed

theorem breaker_invariant_witness:
  "calls (sim_env (Inr (unreliable_handler 0)))
      [requests_get (sim_env (Inr (unreliable_handler 0))) ''/unreliable'',
       requests_get (sim_env (Inr (unreliable_handler 0))) ''/unreliable'']
      (CircuitBreaker_init 2 5) (0, [])
     = ([Inl (ServerError 500), Inl (ServerError 500)],
        \<lparr>failure_threshold = 2, recovery_timeout = 5, failure_count = 2, state = OPEN,
         last_failure_time = Some 2\<rparr>,
        (2, [Invoked, Logged ERROR ''Request failed. Failure count: 1'',
             Invoked, Logged ERROR ''Request failed. Failure count: 2'',
             Logged CRITICAL ''Failure threshold reached! Tripping the Circuit Breaker to OPEN.'']))
   \<and> last_failure_time
        \<lparr>failure_threshold = 2, recovery_timeout = 5, failure_count = 2, state = OPEN,
         last_failure_time = Some 2\<rparr> \<noteq> None"
proof -
  let ?E = "sim_env (Inr (unreliable_handler 0))"
  let ?f = "requests_get ?E ''/unreliable''"
  let ?cb = "\<lparr>failure_threshold = 2, recovery_timeout = 5, failure_count = 2, state = OPEN,
         last_failure_time = Some 2\<rparr>"
  let ?tr = "[Invoked, Logged ERROR ''Request failed. Failure count: 1'',
             Invoked, Logged ERROR ''Request failed. Failure count: 2'',
             Logged CRITICAL ''Failure threshold reached! Tripping the Circuit Breaker to OPEN.'']"
  have h1: "(0::int) < 2" by simp
  have h2: "calls ?E [?f, ?f] (CircuitBreaker_init 2 5) (0, [])
          = ([Inl (ServerError 500), Inl (ServerError 500)], ?cb, (2, ?tr))"
    by (simp add: breaker_eval)
  have h3: "state ?cb = OPEN" by simp
  note breaker_invariant [OF h1 h2, THEN conjunct1, THEN mp, OF h3]
  with h2 show ?thesis by blast
qed

text \<open>
  C10. Every state a breaker reaches from its initial state in which it is open or half
  open has a failure count at or above the threshold: the count is not reset when an
  open breaker becomes half open. So a probe that fails (the \<^verbatim>\<open>try\<close> block started
  from a half-open breaker ends with an exception) leaves the breaker open.
\<close>

theorem tripped_invariant:
  assumes "calls env fs (CircuitBreaker_init thr rt) s = (rs, cb, s')"
  shows "(state cb = OPEN \<or> state cb = HALF_OPEN \<longrightarrow> thr \<le> failure_count cb)
       \<and> (\<forall>s0 cb1 s1. gate env cb s0 = (Inr cb1, s1) \<longrightarrow>
             (state cb1 = OPEN \<or> state cb1 = HALF_OPEN \<longrightarrow> thr \<le> failure_count cb1)
           \<and> (state cb1 = HALF_OPEN \<longrightarrow>
                (\<forall>func e cb2 s2. attempt env func cb1 s1 = (Inl e, cb2, s2) \<longrightarrow> state cb2 = OPEN)))"
proof -
  note a = tripped_calls [OF assms]
  have b: "(state cb1 = OPEN \<or> state cb1 = HALF_OPEN \<longrightarrow> thr \<le> failure_count cb1)
           \<and> (state cb1 = HALF_OPEN \<longrightarrow>
                (\<forall>func e cb2 s2. attempt env func cb1 s1 = (Inl e, cb2, s2) \<longrightarrow> state cb2 = OPEN))"
    if g: "gate env cb s0 = (Inr cb1, s1)" for s0 cb1 s1
  proof -
    from gate_cases [OF g] a
    have c: "failure_threshold cb1 = thr \<and> (state cb1 \<noteq> CLOSED \<longrightarrow> thr \<le> failure_count cb1)"
      by auto
    have "state cb2 = OPEN"
      if "state cb1 = HALF_OPEN" and "attempt env func cb1 s1 = (Inl e, cb2, s2)" for func e cb2 s2
      using attempt_result [OF that(2)] that(1) c by auto
    with c show ?thesis by auto
  qed
  from a b show ?thesis by auto
qed

theorem tripped_invariant_witness:
  "gate (sim_env (Inl Timeout))
      \<lparr>failure_threshold = 2, recovery_timeout = 5, failure_count = 2, state = OPEN,
       last_failure_time = Some 2\<rparr> (8, [])
     = (Inr \<lparr>failure_threshold = 2, recovery_timeout = 5, failure_count = 2, state = HALF_OPEN,
             last_failure_time = Some 2\<rparr>,
        (8, [Logged WARNING ''Circuit breaker transitioning to HALF_OPEN to test the waters...'']))
   \<and> attempt (sim_env (Inl Timeout)) (requests_get (sim_env (Inl Timeout)) ''/unreliable'')
        \<lparr>failure_threshold = 2, recovery_timeout = 5, failure_count = 2, state = HALF_OPEN,
         last_failure_time = Some 2\<rparr>
        (8, [Logged WARNING ''Circuit breaker transitioning to HALF_OPEN to test the waters...''])
     = (Inl Timeout,
        \<lparr>failure_threshold = 2, recovery_timeout = 5, failure_count = 3, state = OPEN,
         last_failure_time = Some 9\<rparr>,
        (9, [Logged WARNING ''Circuit breaker transitioning to HALF_OPEN to test the waters...'',
             Invoked, Logged ERROR ''Request failed. Failure count: 3'',
             Logged CRITICAL ''Failure threshold reached! Tripping the Circuit Breaker to OPEN.'']))
   \<and> (2::int) \<le> failure_count
        \<lparr>failure_threshold = 2, recovery_timeout = 5, failure_count = 2, state = HALF_OPEN,
         last_failure_time = Some 2\<rparr>
   \<and> state \<lparr>failure_threshold = 2, recovery_timeout = 5, failure_count = 3, state = OPEN,
         last_failure_time = Some 9\<rparr> = OPEN"
proof -
  let ?E = "sim_env (Inl Timeout)"
  let ?f = "requests_get ?E ''/unreliable''"
  let ?cb = "\<lparr>failure_threshold = 2, recovery_timeout = 5, failure_count = 2, state = OPEN,
         last_failure_time = Some 2\<rparr>"
  let ?half = "\<lparr>failure_threshold = 2, recovery_timeout = 5, failure_count = 2, state = HALF_OPEN,
         last_failure_time = Some 2\<rparr>"
  let ?cb' = "\<lparr>failure_threshold = 2, recovery_timeout = 5, failure_count = 3, state = OPEN,
         last_failure_time = Some 9\<rparr>"
  let ?tr = "[Invoked, Logged ERROR ''Request failed. Failure count: 1'',
             Invoked, Logged ERROR ''Request failed. Failure count: 2'',
             Logged CRITICAL ''Failure threshold reached! Tripping the Circuit Breaker to OPEN.'']"
  let ?s1 = "(8::real, [Logged WARNING ''Circuit breaker transitioning to HALF_OPEN to test the waters...''])"
  let ?s2 = "(9::real, [Logged WARNING ''Circuit breaker transitioning to HALF_OPEN to test the waters...'',
             Invoked, Logged ERROR ''Request failed. Failure count: 3'',
             Logged CRITICAL ''Failure threshold reached! Tripping the Circuit Breaker to OPEN.''])"
  have h1: "calls ?E [?f, ?f] (CircuitBreaker_init 2 5) (0, []) = ([Inl Timeout, Inl Timeout], ?cb, (2, ?tr))"
    by (simp add: breaker_eval)
  have h2: "gate ?E ?cb (8, []) = (Inr ?half, ?s1)"
    by (simp add: breaker_eval)
  have h3: "attempt ?E ?f ?half ?s1 = (Inl Timeout, ?cb', ?s2)"
    by (simp add: breaker_eval)
  have h4: "state ?half = HALF_OPEN" by simp
  note t = tripped_invariant [OF h1, THEN conjunct2, rule_format, OF h2]
  note t1 = t [THEN conjunct1, THEN mp, OF disjI2, OF h4]
  note t2 = t [THEN conjunct2, THEN mp, OF h4, rule_format, OF h3]
  from h2 h3 t1 t2 show ?thesis by blast
qed

section \<open>The breaker trips, fails fast and recovers\<close>

text \<open>
  C1. For a breaker with threshold \<open>N\<close>, after \<open>N\<close> consecutive failed calls (calls
  that end with an exception, whatever calls came before them since the breaker was
  created) the state is open; and a call made then, while the time since the last
  failure is not greater than the recovery timeout, raises the circuit-open exception at
  once: the breaker is unchanged, the world is what reading the clock left, and the
  trace gains one log record and no invocation of the operation.
\<close>

theorem breaker_trip:
  assumes "0 < N"
    and history: "calls env pre (CircuitBreaker_init N rt) s0 = (rs0, cb0, s1)"
    and run: "calls env fs cb0 s1 = (rs, cb, s)"
    and len: "int (length fs) = N"
    and failed: "\<forall>r \<in> set rs. isl r"
  shows "state cb = OPEN
       \<and> last_failure_time cb \<noteq> None
       \<and> (\<forall>t func now w'.
             last_failure_time cb = Some t \<and> time_time env (fst s) = (now, w') \<and> now - t \<le> rt \<longrightarrow>
               call env func cb s
                 = (Inl CircuitOpenError, cb,
                    (w', snd s @ [Logged ERROR ''Circuit is OPEN. Failing fast to prevent cascading failure.''])))"
proof -
  let ?P = "\<lambda>cb. breaker_inv cb \<and> failure_threshold cb = N \<and> recovery_timeout cb = rt"
  have step: "?P cb'" if "?P cb" and "call env f cb s = (r, cb', s')" for f cb s r cb' s'
    using that breaker_inv_call [OF _ that(2)] call_fields [OF that(2)] by simp
  have init: "?P (CircuitBreaker_init N rt)"
    using assms(1) by (simp add: breaker_inv_init) (simp add: CircuitBreaker_init_def)
  have p0: "?P cb0"
    by (rule calls_invariant [where P = ?P, OF _ init history]) (erule (1) step)
  have p: "?P cb"
    by (rule calls_invariant [where P = ?P, OF _ p0 run]) (erule (1) step)
  from failing_run [OF _ run failed] p0 len
  have "state cb = OPEN \<or> state cb = CLOSED \<and> failure_count cb = failure_count cb0 + N"
    by simp
  moreover from p0 have "0 \<le> failure_count cb0"
    by (auto simp: breaker_inv_def)
  ultimately have o: "state cb = OPEN"
    using p by (auto simp: breaker_inv_def)
  with p have t: "last_failure_time cb \<noteq> None"
    by (auto simp: breaker_inv_def)
  have "call env func cb s
          = (Inl CircuitOpenError, cb,
             (w', snd s @ [Logged ERROR ''Circuit is OPEN. Failing fast to prevent cascading failure.'']))"
    if "last_failure_time cb = Some t \<and> time_time env (fst s) = (now, w') \<and> now - t \<le> rt"
    for t func now w'
    using that o p by (simp add: call_def gate_def log_def)
  with o t show ?thesis by blast
qed

theorem breaker_trip_witness:
  "calls (sim_env (Inl Timeout))
      [requests_get (sim_env (Inl Timeout)) ''/unreliable'',
       requests_get (sim_env (Inl Timeout)) ''/unreliable'']
      (CircuitBreaker_init 2 5) (0, [])
     = ([Inl Timeout, Inl Timeout],
        \<lparr>failure_threshold = 2, recovery_timeout = 5, failure_count = 2, state = OPEN,
         last_failure_time = Some 2\<rparr>,
        (2, [Invoked, Logged ERROR ''Request failed. Failure count: 1'',
             Invoked, Logged ERROR ''Request failed. Failure count: 2'',
             Logged CRITICAL ''Failure threshold reached! Tripping the Circuit Breaker to OPEN.'']))
   \<and> call (sim_env (Inl Timeout)) (requests_get (sim_env (Inr (unreliable_handler 1))) ''/unreliable'')
        \<lparr>failure_threshold = 2, recovery_timeout = 5, failure_count = 2, state = OPEN,
         last_failure_time = Some 2\<rparr>
        (2, [Invoked, Logged ERROR ''Request failed. Failure count: 1'',
             Invoked, Logged ERROR ''Request failed. Failure count: 2'',
             Logged CRITICAL ''Failure threshold reached! Tripping the Circuit Breaker to OPEN.''])
     = (Inl CircuitOpenError,
        \<lparr>failure_threshold = 2, recovery_timeout = 5, failure_count = 2, state = OPEN,
         last_failure_time = Some 2\<rparr>,
        (2, [Invoked, Logged ERROR ''Request failed. Failure count: 1'',
             Invoked, Logged ERROR ''Request failed. Failure count: 2'',
             Logged CRITICAL ''Failure threshold reached! Tripping the Circuit Breaker to OPEN.'',
             Logged ERROR ''Circuit is OPEN. Failing fast to prevent cascading failure.'']))"
proof -
  let ?E = "sim_env (Inl Timeout)"
  let ?f = "requests_get ?E ''/unreliable''"
  let ?cb = "\<lparr>failure_threshold = 2, recovery_timeout = 5, failure_count = 2, state = OPEN,
         last_failure_time = Some 2\<rparr>"
  let ?tr = "[Invoked, Logged ERROR ''Request failed. Failure count: 1'',
             Invoked, Logged ERROR ''Request failed. Failure count: 2'',
             Logged CRITICAL ''Failure threshold reached! Tripping the Circuit Breaker to OPEN.'']"
  have h1: "(0::int) < 2" by simp
  have h2: "calls ?E [] (CircuitBreaker_init 2 5) (0, []) = ([], CircuitBreaker_init 2 5, (0, []))"
    by simp
  have h3: "calls ?E [?f, ?f] (CircuitBreaker_init 2 5) (0, []) = ([Inl Timeout, Inl Timeout], ?cb, (2, ?tr))"
    by (simp add: breaker_eval)
  have h4: "int (length [?f, ?f]) = 2" by simp
  have h5: "\<forall>r \<in> set [Inl Timeout :: exn + response, Inl Timeout]. isl r" by simp
  have h6: "last_failure_time ?cb = Some 2 \<and> time_time ?E (fst (2::real, ?tr)) = (2, 2)
              \<and> (2::real) - 2 \<le> 5"
    by (simp add: sim_env_def)
  note breaker_trip [OF h1 h2 h3 h4 h5, THEN conjunct2, THEN conjunct2, rule_format, OF h6,
      of "requests_get (sim_env (Inr (unreliable_handler 1))) ''/unreliable''"]
  with h3 show ?thesis by simp
qed

text \<open>
  C2. Every call that fails (the gate lets it through, and the operation raises or
  answers with a status of 500 or more) on a breaker reached from its initial state:
  the failure count grows by one, the time of the last failure becomes the clock's
  reading in the \<^verbatim>\<open>except\<close> block, the state becomes open if and only if the new
  count is at or above the threshold and is otherwise the state before the call, and
  the exception (the operation's own, or the server error made from the status) is the
  result of the call together with the updated breaker.
\<close>

theorem call_failure:
  assumes run: "calls env pre (CircuitBreaker_init thr rt) s0 = (rs, cb, s)"
    and pass: "gate env cb s = (Inr cb1, s1)"
    and op: "func (fst s1) = (out, w1)"
    and failed: "check_status out = Inl e"
    and clock: "time_time env w1 = (now, w2)"
  shows "call env func cb s
           = (Inl e,
              cb\<lparr>failure_count := failure_count cb + 1, last_failure_time := Some now,
                 state := (if failure_threshold cb \<le> failure_count cb + 1 then OPEN else state cb)\<rparr>,
              (w2, snd s1 @ [Invoked, Logged ERROR (''Request failed. Failure count: ''
                                                      @ str_int (failure_count cb + 1))]
                     @ (if failure_threshold cb \<le> failure_count cb + 1
                        then [Logged CRITICAL ''Failure threshold reached! Tripping the Circuit Breaker to OPEN.'']
                        else [])))
       \<and> (state (fst (snd (call env func cb s))) = OPEN
            \<longleftrightarrow> failure_threshold cb \<le> failure_count (fst (snd (call env func cb s))))
       \<and> (out = Inl e \<or> (\<exists>r. out = Inr r \<and> 500 \<le> status_code r \<and> e = ServerError (status_code r)))"
proof -
  note a = tripped_calls [OF run]
  have c: "call env func cb s = attempt env func cb1 s1"
    using pass by (simp add: call_def)
  have e: "out = Inl e \<or> (\<exists>r. out = Inr r \<and> 500 \<le> status_code r \<and> e = ServerError (status_code r))"
    using failed by (auto simp: check_status_def split: sum.splits if_splits)
  note f = attempt_failure [of func s1 out w1 e env now w2 cb1, OF op failed clock]
  from gate_cases [OF pass] a e show ?thesis
    unfolding c f by auto
qed

theorem call_failure_witness:
  "calls (sim_env (Inr (unreliable_handler 0)))
      [requests_get (sim_env (Inr (unreliable_handler 0))) ''/unreliable'']
      (CircuitBreaker_init 2 5) (0, [])
     = ([Inl (ServerError 500)],
        \<lparr>failure_threshold = 2, recovery_timeout = 5, failure_count = 1, state = CLOSED,
         last_failure_time = Some 1\<rparr>,
        (1, [Invoked, Logged ERROR ''Request failed. Failure count: 1'']))
   \<and> call (sim_env (Inr (unreliable_handler 0)))
        (requests_get (sim_env (Inr (unreliable_handler 0))) ''/unreliable'')
        \<lparr>failure_threshold = 2, recovery_timeout = 5, failure_count = 1, state = CLOSED,
         last_failure_time = Some 1\<rparr>
        (1, [Invoked, Logged ERROR ''Request failed. Failure count: 1''])
     = (Inl (Exception ''Server Error 500''),
        \<lparr>failure_threshold = 2, recovery_timeout = 5, failure_count = 2, state = OPEN,
         last_failure_time = Some 2\<rparr>,
        (2, [Invoked, Logged ERROR ''Request failed. Failure count: 1'',
             Invoked, Logged ERROR ''Request failed. Failure count: 2'',
             Logged CRITICAL ''Failure threshold reached! Tripping the Circuit Breaker to OPEN.'']))"
proof -
  let ?E = "sim_env (Inr (unreliable_handler 0))"
  let ?f = "requests_get ?E ''/unreliable''"
  let ?cb = "\<lparr>failure_threshold = 2, recovery_timeout = 5, failure_count = 1, state = CLOSED,
         last_failure_time = Some 1\<rparr>"
  let ?s = "(1::real, [Invoked, Logged ERROR ''Request failed. Failure count: 1''])"
  have h1: "calls ?E [?f] (CircuitBreaker_init 2 5) (0, []) = ([Inl (ServerError 500)], ?cb, ?s)"
    by (simp add: breaker_eval)
  have h2: "gate ?E ?cb ?s = (Inr ?cb, ?s)"
    by (simp add: gate_def)
  have h3: "?f (fst ?s) = (Inr (unreliable_handler 0), 2)"
    by (simp add: sim_env_def)
  have h4: "check_status (Inr (unreliable_handler 0)) = Inl (ServerError 500)"
    by (simp add: check_status_def unreliable_handler_def)
  have h5: "time_time ?E 2 = (2, 2)"
    by (simp add: sim_env_def)
  note call_failure [where func = ?f and ?s1.0 = ?s, OF h1 h2 h3 h4 h5, THEN conjunct1]
  with h1 show ?thesis by (simp add: ServerError_def str_int_def)
qed

text \<open>
  C3. A call on an open breaker whose clock reading is later than the last failure by
  more than the recovery timeout makes the breaker half open and runs the \<^verbatim>\<open>try\<close>
  block once from there: the trace of the call holds exactly one more invocation of the
  operation. A breaker that is not open goes to the \<^verbatim>\<open>try\<close> block as it is. When the
  operation then answers with a status below 500 (from a closed, a half-open or a probing
  breaker), the count is reset to zero, the breaker is closed and the response is
  returned: one successful probe closes the breaker.
\<close>

theorem probe_after_timeout:
  "(state cb = OPEN \<and> last_failure_time cb = Some t \<and> time_time env (fst s) = (now, w1)
      \<and> recovery_timeout cb < now - t \<longrightarrow>
        gate env cb s
          = (Inr (cb\<lparr>state := HALF_OPEN\<rparr>),
             (w1, snd s @ [Logged WARNING ''Circuit breaker transitioning to HALF_OPEN to test the waters...'']))
      \<and> call env func cb s
          = attempt env func (cb\<lparr>state := HALF_OPEN\<rparr>)
              (w1, snd s @ [Logged WARNING ''Circuit breaker transitioning to HALF_OPEN to test the waters...''])
      \<and> count_list (snd (snd (snd (call env func cb s)))) Invoked = count_list (snd s) Invoked + 1)
   \<and> (state cb \<noteq> OPEN \<longrightarrow> gate env cb s = (Inr cb, s))
   \<and> (gate env cb s = (Inr cb1, s1) \<and> func (fst s1) = (Inr r, w2) \<and> status_code r < 500 \<longrightarrow>
        call env func cb s
          = (Inr r, cb\<lparr>failure_count := 0, state := CLOSED\<rparr>, (w2, snd s1 @ [Invoked])))"
proof -
  have a: "gate env cb s
          = (Inr (cb\<lparr>state := HALF_OPEN\<rparr>),
             (w1, snd s @ [Logged WARNING ''Circuit breaker transitioning to HALF_OPEN to test the waters...'']))
      \<and> call env func cb s
          = attempt env func (cb\<lparr>state := HALF_OPEN\<rparr>)
              (w1, snd s @ [Logged WARNING ''Circuit breaker transitioning to HALF_OPEN to test the waters...''])
      \<and> count_list (snd (snd (snd (call env func cb s)))) Invoked = count_list (snd s) Invoked + 1"
    if h: "state cb = OPEN" "last_failure_time cb = Some t" "time_time env (fst s) = (now, w1)"
      "recovery_timeout cb < now - t"
  proof -
    let ?s1 = "(w1, snd s @ [Logged WARNING ''Circuit breaker transitioning to HALF_OPEN to test the waters...''])"
    have g: "gate env cb s = (Inr (cb\<lparr>state := HALF_OPEN\<rparr>), ?s1)"
      using h by (simp add: gate_def log_def)
    then have c: "call env func cb s = attempt env func (cb\<lparr>state := HALF_OPEN\<rparr>) ?s1"
      by (simp add: call_def)
    obtain out w2 where f: "func w1 = (out, w2)" by (cases "func w1")
    obtain now2 w3 where t: "time_time env w2 = (now2, w3)" by (cases "time_time env w2")
    have "count_list (snd (snd (snd (attempt env func (cb\<lparr>state := HALF_OPEN\<rparr>) ?s1)))) Invoked
            = count_list (snd s) Invoked + 1"
      using f t by (cases "check_status out") (simp_all add: attempt_def Let_def log_def)
    with g c show ?thesis by simp
  qed
  have b: "gate env cb s = (Inr cb, s)" if "state cb \<noteq> OPEN"
    using that by (simp add: gate_def)
  have c: "call env func cb s
          = (Inr r, cb\<lparr>failure_count := 0, state := CLOSED\<rparr>, (w2, snd s1 @ [Invoked]))"
    if h: "gate env cb s = (Inr cb1, s1)" "func (fst s1) = (Inr r, w2)" "status_code r < 500"
  proof -
    have "check_status (Inr r) = Inr r" using h(3) by (simp add: check_status_def)
    note attempt_success [of func s1 "Inr r" w2 r env cb1, OF h(2) this]
    with h(1) gate_cases [OF h(1)] show ?thesis by (auto simp: call_def)
  qed
  from a b c show ?thesis by blast
qed

theorem probe_after_timeout_witness:
  "call (sim_env (Inr (unreliable_handler 1))) (requests_get (sim_env (Inr (unreliable_handler 1))) ''/unreliable'')
      \<lparr>failure_threshold = 2, recovery_timeout = 5, failure_count = 2, state = OPEN,
       last_failure_time = Some 2\<rparr> (8, [])
     = (Inr (unreliable_handler 1),
        \<lparr>failure_threshold = 2, recovery_timeout = 5, failure_count = 0, state = CLOSED,
         last_failure_time = Some 2\<rparr>,
        (9, [Logged WARNING ''Circuit breaker transitioning to HALF_OPEN to test the waters...'',
             Invoked]))
   \<and> count_list (snd (snd (snd
        (call (sim_env (Inr (unreliable_handler 1))) (requests_get (sim_env (Inr (unreliable_handler 1))) ''/unreliable'')
           \<lparr>failure_threshold = 2, recovery_timeout = 5, failure_count = 2, state = OPEN,
            last_failure_time = Some 2\<rparr> (8, []))))) Invoked = 1"
proof -
  let ?E = "sim_env (Inr (unreliable_handler 1))"
  let ?f = "requests_get ?E ''/unreliable''"
  let ?cb = "\<lparr>failure_threshold = 2, recovery_timeout = 5, failure_count = 2, state = OPEN,
       last_failure_time = Some 2\<rparr>"
  let ?s1 = "(8::real, [Logged WARNING ''Circuit breaker transitioning to HALF_OPEN to test the waters...''])"
  have h1: "state ?cb = OPEN \<and> last_failure_time ?cb = Some 2 \<and> time_time ?E (fst (8::real, [])) = (8, 8)
              \<and> recovery_timeout ?cb < 8 - 2"
    by (simp add: sim_env_def)
  note p = probe_after_timeout [where cb = ?cb and env = ?E and func = ?f and s = "(8, [])"]
  note p1 = p [THEN conjunct1, THEN mp, OF h1]
  have h2: "gate ?E ?cb (8, []) = (Inr (?cb\<lparr>state := HALF_OPEN\<rparr>), ?s1)
              \<and> ?f (fst ?s1) = (Inr (unreliable_handler 1), 9) \<and> status_code (unreliable_handler 1) < 500"
    using p1 by (simp add: sim_env_def unreliable_handler_def)
  note p3 = p [THEN conjunct2, THEN conjunct2, THEN mp, OF h2]
  have r1: "call ?E ?f ?cb (8, [])
          = (Inr (unreliable_handler 1),
             \<lparr>failure_threshold = 2, recovery_timeout = 5, failure_count = 0, state = CLOSED,
              last_failure_time = Some 2\<rparr>,
             (9, [Logged WARNING ''Circuit breaker transitioning to HALF_OPEN to test the waters...'',
                  Invoked]))"
    using p3 by simp
  have r2: "count_list (snd (snd (snd (call ?E ?f ?cb (8, []))))) Invoked = 1"
    using p1 [THEN conjunct2, THEN conjunct2] by simp
  from r1 r2 show ?thesis by (rule conjI)
qed

section \<open>The retry loop\<close>

text \<open>One turn of the loop, case by case.\<close>

lemma loop_done:
  "\<not> retries \<le> max_retries \<Longrightarrow> wrapper_loop env max_retries bd md func retries s = (Inr None, s)"
  by (simp add: wrapper_loop.simps)

lemma loop_success:
  assumes "retries \<le> max_retries" and "func (Some 3) (fst s) = (Inr r, w1)"
  shows "wrapper_loop env max_retries bd md func retries s = (Inr (Some r), (w1, snd s @ [Invoked]))"
  using assms by (simp add: wrapper_loop.simps)

lemma loop_other_error:
  assumes "retries \<le> max_retries" and "func (Some 3) (fst s) = (Inl e, w1)"
    and "\<not> is_request_exception e"
  shows "wrapper_loop env max_retries bd md func retries s = (Inl e, (w1, snd s @ [Invoked]))"
  using assms by (simp add: wrapper_loop.simps)

lemma loop_exhausted:
  assumes "retries = max_retries" and "func (Some 3) (fst s) = (Inl e, w1)"
    and "is_request_exception e"
  shows "wrapper_loop env max_retries bd md func retries s
       = (Inl e, (w1, snd s @ [Invoked,
            Logged ERROR (''Max retries ('' @ str_int max_retries @ '') exhausted. Giving up.'')]))"
  using assms by (simp add: wrapper_loop.simps log_def)

lemma loop_retry:
  assumes "retries < max_retries" and "func (Some 3) (fst s) = (Inl e, w1)"
    and "is_request_exception e" and "random_uniform env 0 0.5 w1 = (jitter, w2)"
  shows "wrapper_loop env max_retries bd md func retries s
       = wrapper_loop env max_retries bd md func (retries + 1)
           (time_sleep env (backoff_delay bd md (retries + 1) + jitter) w2,
            snd s @ [Invoked,
              Logged WARNING (''Timeout/Error occurred. Retrying in {total_delay:.2f} seconds... (Attempt ''
                                @ str_int (retries + 1) @ ''/'' @ str_int max_retries @ '')''),
              Slept (backoff_delay bd md (retries + 1) + jitter)])"
  using assms by (subst wrapper_loop.simps) (simp add: log_def Let_def)

text \<open>The whole loop: how often it invokes the operation.\<close>

lemma loop_bound:
  "count_list (snd (snd (wrapper_loop env max_retries bd md func retries s))) Invoked
     \<le> count_list (snd s) Invoked + nat (max_retries + 1 - retries)"
proof (induction "nat (max_retries + 1 - retries)" arbitrary: retries s)
  case 0
  then have "\<not> retries \<le> max_retries" by simp
  then show ?case by (simp add: loop_done)
next
  case (Suc n)
  then have le: "retries \<le> max_retries" by simp
  obtain out w1 where f: "func (Some 3) (fst s) = (out, w1)" by (cases "func (Some 3) (fst s)")
  show ?case
  proof (cases out)
    case (Inr r)
    with le f Suc.hyps(2) show ?thesis by (simp add: loop_success)
  next
    case (Inl e)
    show ?thesis
    proof (cases "is_request_exception e")
      case False
      with le f Inl Suc.hyps(2) show ?thesis by (simp add: loop_other_error)
    next
      case True
      show ?thesis
      proof (cases "retries = max_retries")
        case eq: True
        with f Inl True show ?thesis by (simp add: loop_exhausted)
      next
        case False
        with le have lt: "retries < max_retries" by simp
        obtain jitter w2 where j: "random_uniform env 0 0.5 w1 = (jitter, w2)"
          by (cases "random_uniform env 0 0.5 w1")
        from f Inl have f': "func (Some 3) (fst s) = (Inl e, w1)" by simp
        from Suc.hyps(2) have n: "n = nat (max_retries + 1 - (retries + 1))" by simp
        let ?d = "backoff_delay bd md (retries + 1) + jitter"
        let ?s' = "(time_sleep env ?d w2,
                    snd s @ [Invoked,
                      Logged WARNING (''Timeout/Error occurred. Retrying in {total_delay:.2f} seconds... (Attempt ''
                                        @ str_int (retries + 1) @ ''/'' @ str_int max_retries @ '')''),
                      Slept ?d])"
        from lt have "Suc (nat (max_retries + 1 - (retries + 1))) = nat (max_retries + 1 - retries)"
          by simp
        moreover have "count_list (snd ?s') Invoked = Suc (count_list (snd s) Invoked)"
          by simp
        ultimately have
          "count_list (snd (snd (wrapper_loop env max_retries bd md func (retries + 1) ?s'))) Invoked
             \<le> count_list (snd s) Invoked + nat (max_retries + 1 - retries)"
          using Suc.hyps(1) [OF n, of ?s'] by linarith
        then show ?thesis
          unfolding loop_retry [where func = func and s = s, OF lt f' True j] .
      qed
    qed
  qed
qed

text \<open>The loop only adds to the trace.\<close>

lemma loop_trace:
  "\<exists>tr'. snd (snd (wrapper_loop env max_retries bd md func retries s)) = snd s @ tr'"
proof (induction "nat (max_retries + 1 - retries)" arbitrary: retries s)
  case 0
  then have "\<not> retries \<le> max_retries" by simp
  then show ?case by (simp add: loop_done)
next
  case (Suc n)
  then have le: "retries \<le> max_retries" by simp
  obtain out w1 where f: "func (Some 3) (fst s) = (out, w1)" by (cases "func (Some 3) (fst s)")
  show ?case
  proof (cases out)
    case (Inr r)
    with le f show ?thesis by (simp add: loop_success)
  next
    case (Inl e)
    show ?thesis
    proof (cases "is_request_exception e")
      case False
      with le f Inl show ?thesis by (simp add: loop_other_error)
    next
      case True
      show ?thesis
      proof (cases "retries = max_retries")
        case eq: True
        with f Inl True show ?thesis by (simp add: loop_exhausted)
      next
        case False
        with le have lt: "retries < max_retries" by simp
        obtain jitter w2 where j: "random_uniform env 0 0.5 w1 = (jitter, w2)"
          by (cases "random_uniform env 0 0.5 w1")
        from f Inl have f': "func (Some 3) (fst s) = (Inl e, w1)" by simp
        from Suc.hyps(2) have n: "n = nat (max_retries + 1 - (retries + 1))" by simp
        let ?d = "backoff_delay bd md (retries + 1) + jitter"
        let ?s' = "(time_sleep env ?d w2,
                    snd s @ [Invoked,
                      Logged WARNING (''Timeout/Error occurred. Retrying in {total_delay:.2f} seconds... (Attempt ''
                                        @ str_int (retries + 1) @ ''/'' @ str_int max_retries @ '')''),
                      Slept ?d])"
        from Suc.hyps(1) [OF n, of ?s'] obtain tr' where
          "snd (snd (wrapper_loop env max_retries bd md func (retries + 1) ?s')) = snd ?s' @ tr'"
          by blast
        then show ?thesis
          unfolding loop_retry [where func = func and s = s, OF lt f' True j] by simp
      qed
    qed
  qed
qed

text \<open>The loop on an operation that always raises a request exception.\<close>

lemma loop_always_failing:
  assumes fails: "\<forall>t w. \<exists>e w'. func t w = (Inl e, w') \<and> is_request_exception e"
    and "retries \<le> max_retries"
  shows "\<exists>e w_last w_end tr.
           wrapper_loop env max_retries bd md func retries s = (Inl e, (w_end, tr))
         \<and> func (Some 3) w_last = (Inl e, w_end)
         \<and> is_request_exception e
         \<and> count_list tr Invoked = count_list (snd s) Invoked + nat (max_retries + 1 - retries)"
  using assms(2)
proof (induction "nat (max_retries - retries)" arbitrary: retries s)
  case 0
  then have eq: "retries = max_retries" by simp
  from fails obtain e w1 where f: "func (Some 3) (fst s) = (Inl e, w1)" and r: "is_request_exception e"
    by blast
  show ?case
    unfolding loop_exhausted [where func = func and s = s, OF eq f r] using f r eq by auto
next
  case (Suc n)
  then have lt: "retries < max_retries" by simp
  from fails obtain e w1 where f: "func (Some 3) (fst s) = (Inl e, w1)" and r: "is_request_exception e"
    by blast
  obtain jitter w2 where j: "random_uniform env 0 0.5 w1 = (jitter, w2)"
    by (cases "random_uniform env 0 0.5 w1")
  from Suc.hyps(2) have n: "n = nat (max_retries - (retries + 1))" by simp
  from lt have le: "retries + 1 \<le> max_retries" by simp
  let ?d = "backoff_delay bd md (retries + 1) + jitter"
  let ?s' = "(time_sleep env ?d w2,
              snd s @ [Invoked,
                Logged WARNING (''Timeout/Error occurred. Retrying in {total_delay:.2f} seconds... (Attempt ''
                                  @ str_int (retries + 1) @ ''/'' @ str_int max_retries @ '')''),
                Slept ?d])"
  from Suc.hyps(1) [OF n le, of ?s'] obtain e' w_last w_end tr where
    run: "wrapper_loop env max_retries bd md func (retries + 1) ?s' = (Inl e', (w_end, tr))"
    and last: "func (Some 3) w_last = (Inl e', w_end)" "is_request_exception e'"
    and cnt: "count_list tr Invoked = count_list (snd ?s') Invoked + nat (max_retries + 1 - (retries + 1))"
    by blast
  from lt have "Suc (nat (max_retries + 1 - (retries + 1))) = nat (max_retries + 1 - retries)"
    by simp
  with cnt have "count_list tr Invoked = count_list (snd s) Invoked + nat (max_retries + 1 - retries)"
    by simp
  with run last show ?case
    unfolding loop_retry [where func = func and s = s, OF lt f r j] by blast
qed

lemma backoff_delay_pos: "1 \<le> k \<Longrightarrow> backoff_delay bd md k = min (bd * 2 ^ nat (k - 1)) md"
  by (simp add: backoff_delay_def pow2_def)

text \<open>The equations that evaluate the loop on the simulated environment.\<close>

lemmas retry_eval =
  exponential_backoff_retry_def wrapper_loop.simps sim_env_def log_def Let_def
  backoff_delay_def pow2_def str_int_def

text \<open>
  C4, as the code has it. For a non-negative \<^verbatim>\<open>max_retries\<close>: the wrapper invokes the
  operation at most \<^verbatim>\<open>max_retries + 1\<close> times; when every call of the operation raises
  a \<^verbatim>\<open>RequestException\<close> (a timeout is one), it invokes it exactly
  \<^verbatim>\<open>max_retries + 1\<close> times and then raises the exception of the last attempt
  itself, as the operation raised it (\<^verbatim>\<open>raise e\<close>): no other exception is made to
  wrap it; an attempt that returns ends the loop with that value and no further attempt.
\<close>

theorem retry_bound:
  assumes "0 \<le> max_retries"
  shows "int (count_list (snd (snd (exponential_backoff_retry env max_retries bd md func s))) Invoked)
           \<le> int (count_list (snd s) Invoked) + max_retries + 1
       \<and> ((\<forall>t w. \<exists>e w'. func t w = (Inl e, w') \<and> is_request_exception e) \<longrightarrow>
            (\<exists>e w_last w_end tr.
               exponential_backoff_retry env max_retries bd md func s = (Inl e, (w_end, tr))
             \<and> func (Some 3) w_last = (Inl e, w_end)
             \<and> int (count_list tr Invoked) = int (count_list (snd s) Invoked) + max_retries + 1))
       \<and> (\<forall>retries s' r w1.
             retries \<le> max_retries \<and> func (Some 3) (fst s') = (Inr r, w1) \<longrightarrow>
               wrapper_loop env max_retries bd md func retries s'
                 = (Inr (Some r), (w1, snd s' @ [Invoked])))"
proof -
  from assms have n: "int (nat (max_retries + 1 - 0)) = max_retries + 1" by simp
  have a: "int (count_list (snd (snd (exponential_backoff_retry env max_retries bd md func s))) Invoked)
           \<le> int (count_list (snd s) Invoked) + max_retries + 1"
    using loop_bound [of env max_retries bd md func 0 s] n
    unfolding exponential_backoff_retry_def by linarith
  have b: "\<exists>e w_last w_end tr.
               exponential_backoff_retry env max_retries bd md func s = (Inl e, (w_end, tr))
             \<and> func (Some 3) w_last = (Inl e, w_end)
             \<and> int (count_list tr Invoked) = int (count_list (snd s) Invoked) + max_retries + 1"
    if f: "\<forall>t w. \<exists>e w'. func t w = (Inl e, w') \<and> is_request_exception e"
  proof -
    from loop_always_failing [OF f assms, of env bd md s] obtain e w_last w_end tr where
      "wrapper_loop env max_retries bd md func 0 s = (Inl e, (w_end, tr))"
      "func (Some 3) w_last = (Inl e, w_end)"
      "count_list tr Invoked = count_list (snd s) Invoked + nat (max_retries + 1 - 0)"
      by blast
    with n show ?thesis
      unfolding exponential_backoff_retry_def
      by (intro exI [of _ e] exI [of _ w_last] exI [of _ w_end] exI [of _ tr]) simp
  qed
  have c: "wrapper_loop env max_retries bd md func retries s' = (Inr (Some r), (w1, snd s' @ [Invoked]))"
    if "retries \<le> max_retries \<and> func (Some 3) (fst s') = (Inr r, w1)" for retries s' r w1
    using that loop_success [where func = func and s = s'] by blast
  from a b c show ?thesis by blast
qed

theorem retry_bound_witness:
  "isl (fst (exponential_backoff_retry (sim_env (Inl Timeout)) 3 1 8
               (\<lambda>timeout. requests_get (sim_env (Inl Timeout)) ''/slow'') (0, [])))
   \<and> int (count_list (snd (snd (exponential_backoff_retry (sim_env (Inl Timeout)) 3 1 8
               (\<lambda>timeout. requests_get (sim_env (Inl Timeout)) ''/slow'') (0, [])))) Invoked)
        = 3 + 1"
proof -
  let ?E = "sim_env (Inl Timeout)"
  let ?f = "\<lambda>timeout :: int option. requests_get ?E ''/slow''"
  have h1: "(0::int) \<le> 3" by simp
  have h2: "\<forall>t w. \<exists>e w'. ?f t w = (Inl e, w') \<and> is_request_exception e"
    by (simp add: sim_env_def)
  from retry_bound [OF h1, where func = ?f and env = ?E and bd = 1 and md = 8 and s = "(0, [])",
      THEN conjunct2, THEN conjunct1, THEN mp, OF h2]
  obtain e w_last w_end tr where
    r: "exponential_backoff_retry ?E 3 1 8 ?f (0, []) = (Inl e, (w_end, tr))"
    and c: "int (count_list tr Invoked) = int (count_list (snd (0::real, [])) Invoked) + 3 + 1"
    by blast
  from c have "int (count_list tr Invoked) = 3 + 1" by simp
  with r show ?thesis by simp
qed

text \<open>
  The claim C4 says the failure reaches the caller as a retry-exhausted error that wraps
  the last cause. On an operation that always times out, what the caller of the wrapper
  receives is the \<^verbatim>\<open>Timeout\<close> the operation raised, a \<^verbatim>\<open>RequestException\<close> like
  that of any single attempt.
\<close>

theorem retry_exhausted_counterexample:
  "exponential_backoff_retry (sim_env (Inl Timeout)) 3 1 8
      (\<lambda>timeout. requests_get (sim_env (Inl Timeout)) ''/slow'') (0, [])
     = (Inl Timeout,
        (47 / 4,
         [Invoked,
          Logged WARNING ''Timeout/Error occurred. Retrying in {total_delay:.2f} seconds... (Attempt 1/3)'',
          Slept (5 / 4), Invoked,
          Logged WARNING ''Timeout/Error occurred. Retrying in {total_delay:.2f} seconds... (Attempt 2/3)'',
          Slept (9 / 4), Invoked,
          Logged WARNING ''Timeout/Error occurred. Retrying in {total_delay:.2f} seconds... (Attempt 3/3)'',
          Slept (17 / 4), Invoked,
          Logged ERROR ''Max retries (3) exhausted. Giving up.'']))
   \<and> requests_get (sim_env (Inl Timeout)) ''/slow'' (43 / 4) = (Inl Timeout, 47 / 4)
   \<and> is_request_exception Timeout"
  by (simp add: retry_eval)

text \<open>
  C5, as the code has it. Before retry \<open>k\<close> (for \<open>k\<close> from 1 to \<^verbatim>\<open>max_retries\<close>, after
  the \<open>k\<close>-th attempt raised a \<^verbatim>\<open>RequestException\<close>), with a jitter drawn between 0
  and one half, the loop sleeps \<open>min (base_delay * 2 ^ (k - 1)) max_delay + jitter\<close> and
  goes on with \<^verbatim>\<open>retries = k\<close>. The time slept lies between
  \<open>min (base_delay * 2 ^ (k - 1)) max_delay\<close> and that number plus one half; it is at
  least \<open>base_delay * 2 ^ (k - 1)\<close> when that does not exceed \<^verbatim>\<open>max_delay\<close>.
\<close>

theorem retry_delay:
  assumes "1 \<le> k" and "k \<le> max_retries"
    and "func (Some 3) (fst s) = (Inl e, w1)" and "is_request_exception e"
    and "random_uniform env 0 0.5 w1 = (jitter, w2)" and "0 \<le> jitter" and "jitter \<le> 0.5"
  shows "wrapper_loop env max_retries bd md func (k - 1) s
           = wrapper_loop env max_retries bd md func k
               (time_sleep env (min (bd * 2 ^ nat (k - 1)) md + jitter) w2,
                snd s @ [Invoked,
                  Logged WARNING (''Timeout/Error occurred. Retrying in {total_delay:.2f} seconds... (Attempt ''
                                    @ str_int k @ ''/'' @ str_int max_retries @ '')''),
                  Slept (min (bd * 2 ^ nat (k - 1)) md + jitter)])
       \<and> (\<exists>tr'. snd (snd (wrapper_loop env max_retries bd md func (k - 1) s))
                  = snd s @ [Invoked,
                      Logged WARNING (''Timeout/Error occurred. Retrying in {total_delay:.2f} seconds... (Attempt ''
                                        @ str_int k @ ''/'' @ str_int max_retries @ '')''),
                      Slept (min (bd * 2 ^ nat (k - 1)) md + jitter)] @ tr')
       \<and> min (bd * 2 ^ nat (k - 1)) md \<le> min (bd * 2 ^ nat (k - 1)) md + jitter
       \<and> min (bd * 2 ^ nat (k - 1)) md + jitter \<le> min (bd * 2 ^ nat (k - 1)) md + 0.5
       \<and> (bd * 2 ^ nat (k - 1) \<le> md \<longrightarrow> bd * 2 ^ nat (k - 1) \<le> min (bd * 2 ^ nat (k - 1)) md + jitter)"
proof -
  let ?d = "min (bd * 2 ^ nat (k - 1)) md + jitter"
  let ?s' = "(time_sleep env ?d w2,
              snd s @ [Invoked,
                Logged WARNING (''Timeout/Error occurred. Retrying in {total_delay:.2f} seconds... (Attempt ''
                                  @ str_int k @ ''/'' @ str_int max_retries @ '')''),
                Slept ?d])"
  from assms(2) have lt: "k - 1 < max_retries" by simp
  from loop_retry [where func = func and s = s and retries = "k - 1", OF lt assms(3,4,5), of bd md]
  have turn: "wrapper_loop env max_retries bd md func (k - 1) s
      = wrapper_loop env max_retries bd md func k ?s'"
    by (simp add: backoff_delay_pos [OF assms(1)])
  from loop_trace [of env max_retries bd md func k ?s'] obtain tr' where
    "snd (snd (wrapper_loop env max_retries bd md func k ?s')) = snd ?s' @ tr'"
    by blast
  with turn have "snd (snd (wrapper_loop env max_retries bd md func (k - 1) s))
                  = snd s @ [Invoked,
                      Logged WARNING (''Timeout/Error occurred. Retrying in {total_delay:.2f} seconds... (Attempt ''
                                        @ str_int k @ ''/'' @ str_int max_retries @ '')''),
                      Slept ?d] @ tr'"
    by simp
  then have ex: "\<exists>tr'. snd (snd (wrapper_loop env max_retries bd md func (k - 1) s))
                  = snd s @ [Invoked,
                      Logged WARNING (''Timeout/Error occurred. Retrying in {total_delay:.2f} seconds... (Attempt ''
                                        @ str_int k @ ''/'' @ str_int max_retries @ '')''),
                      Slept ?d] @ tr'"
    by (rule exI)
  have bounds: "min (bd * 2 ^ nat (k - 1)) md \<le> ?d \<and> ?d \<le> min (bd * 2 ^ nat (k - 1)) md + 0.5
       \<and> (bd * 2 ^ nat (k - 1) \<le> md \<longrightarrow> bd * 2 ^ nat (k - 1) \<le> ?d)"
    using assms(6,7) by auto
  from turn ex bounds show ?thesis by blast
qed

theorem retry_delay_witness:
  "wrapper_loop (sim_env (Inl Timeout)) 3 1 8
      (\<lambda>timeout. requests_get (sim_env (Inl Timeout)) ''/slow'') (2 - 1) (9 / 4, [])
     = wrapper_loop (sim_env (Inl Timeout)) 3 1 8
         (\<lambda>timeout. requests_get (sim_env (Inl Timeout)) ''/slow'') 2
         (11 / 2,
          [Invoked,
           Logged WARNING ''Timeout/Error occurred. Retrying in {total_delay:.2f} seconds... (Attempt 2/3)'',
           Slept (9 / 4)])
   \<and> (1::real) * 2 ^ nat (2 - 1) \<le> 9 / 4"
proof -
  let ?E = "sim_env (Inl Timeout)"
  let ?f = "\<lambda>timeout :: int option. requests_get ?E ''/slow''"
  have h1: "(1::int) \<le> 2" and h2: "(2::int) \<le> 3" by simp_all
  have h3: "?f (Some 3) (fst (9 / 4 :: real, [] :: event list)) = (Inl Timeout, 13 / 4)"
    by (simp add: sim_env_def)
  have h4: "is_request_exception Timeout" by simp
  have h5: "random_uniform ?E 0 0.5 (13 / 4) = (1 / 4, 13 / 4)"
    by (simp add: sim_env_def)
  have h6: "(0::real) \<le> 1 / 4" and h7: "(1 / 4 :: real) \<le> 0.5" by simp_all
  note r = retry_delay [where func = ?f and s = "(9 / 4, [])" and bd = 1 and md = 8,
      OF h1 h2 h3 h4 h5 h6 h7]
  have r1: "wrapper_loop ?E 3 1 8 ?f (2 - 1) (9 / 4, [])
     = wrapper_loop ?E 3 1 8 ?f 2
         (11 / 2,
          [Invoked,
           Logged WARNING ''Timeout/Error occurred. Retrying in {total_delay:.2f} seconds... (Attempt 2/3)'',
           Slept (9 / 4)])"
    using r [THEN conjunct1] by (simp add: sim_env_def str_int_def)
  have r2: "(1::real) * 2 ^ nat (2 - 1) \<le> 9 / 4"
    using r [THEN conjunct2, THEN conjunct2, THEN conjunct2, THEN conjunct2] by simp
  from r1 r2 show ?thesis by (rule conjI)
qed

text \<open>
  The claim C5 also bounds the time slept from below by \<open>base_delay * 2 ^ (k - 1)\<close>.
  With \<^verbatim>\<open>max_retries = 5\<close> and the defaults \<^verbatim>\<open>base_delay = 1\<close>, \<^verbatim>\<open>max_delay = 8\<close>, the
  sleep before retry 5 is 8 plus the jitter (here one quarter), below \<open>1 * 2 ^ 4 = 16\<close>.
\<close>

theorem retry_delay_counterexample:
  "exponential_backoff_retry (sim_env (Inl Timeout)) 5 1 8
      (\<lambda>timeout. requests_get (sim_env (Inl Timeout)) ''/slow'') (0, [])
     = (Inl Timeout,
        (121 / 4,
         [Invoked,
          Logged WARNING ''Timeout/Error occurred. Retrying in {total_delay:.2f} seconds... (Attempt 1/5)'',
          Slept (5 / 4), Invoked,
          Logged WARNING ''Timeout/Error occurred. Retrying in {total_delay:.2f} seconds... (Attempt 2/5)'',
          Slept (9 / 4), Invoked,
          Logged WARNING ''Timeout/Error occurred. Retrying in {total_delay:.2f} seconds... (Attempt 3/5)'',
          Slept (17 / 4), Invoked,
          Logged WARNING ''Timeout/Error occurred. Retrying in {total_delay:.2f} seconds... (Attempt 4/5)'',
          Slept (33 / 4), Invoked,
          Logged WARNING ''Timeout/Error occurred. Retrying in {total_delay:.2f} seconds... (Attempt 5/5)'',
          Slept (33 / 4), Invoked,
          Logged ERROR ''Max retries (5) exhausted. Giving up.'']))
   \<and> backoff_delay 1 8 5 + 1 / 4 = 33 / 4
   \<and> \<not> (1::real) * 2 ^ (5 - 1) \<le> 33 / 4"
  by (simp add: retry_eval)

section \<open>The three tiers\<close>

text \<open>
  The wrapper calls the decorated method with \<^verbatim>\<open>timeout=3\<close>, a keyword the method
  does not take: the first attempt raises \<^verbatim>\<open>TypeError\<close>, which the \<^verbatim>\<open>except\<close>
  clause of the wrapper does not catch. No request is made and nothing is slept.
\<close>

lemma fetch_recommendations_with_retry_eq:
  "fetch_recommendations_with_retry env app s = (Inl TypeError, (fst s, snd s @ [Invoked]))"
  by (simp add: fetch_recommendations_with_retry_def exponential_backoff_retry_def
        fetch_recommendations_func_def loop_other_error [where e = TypeError and ?w1.0 = "fst s"])

lemmas app_eval =
  ECommerceApp_init_def view_product_def load_reviews_def load_recommendations_def
  message_of_def message_of_opt_def

text \<open>
  C6. Whether \<^verbatim>\<open>load_recommendations\<close> sheds depends on the load alone: it sheds if
  and only if \<^verbatim>\<open>system_load > 80\<close>, in every environment, world and breaker state.
  When it sheds it returns at once: the world is untouched, the trace gains two log
  records and no invocation (so no attempt of the retry loop and no sleep), and the
  application object, its breaker included, is unchanged. When it does not shed, the
  decorated method is invoked and the method ends with the degradation message.
\<close>

theorem load_shedding:
  "(80 < system_load app \<longrightarrow>
      load_recommendations env app s
        = (Inr (), app,
           (fst s, snd s @ [Logged INFO ''--- Fetching Tier 3 (Recommendations) ---'',
              Logged WARNING ''Load shedding active! System under heavy load. Gracefully disabling recommendations.''])))
   \<and> (\<not> 80 < system_load app \<longrightarrow>
      load_recommendations env app s
        = (Inr (), app,
           (fst s, snd s @ [Logged INFO ''--- Fetching Tier 3 (Recommendations) ---'', Invoked,
              Logged INFO ''Graceful degradation: Recommendations area hidden from UI.''])))
   \<and> (last (snd (snd (snd (load_recommendations env app s))))
          = Logged WARNING ''Load shedding active! System under heavy load. Gracefully disabling recommendations.''
        \<longleftrightarrow> 80 < system_load app)"
  by (simp add: load_recommendations_def fetch_recommendations_with_retry_eq message_of_opt_def
        log_def Let_def)

theorem load_shedding_witness:
  "load_recommendations (sim_env (Inr slow_handler))
      ((ECommerceApp_init ''https://shop'')\<lparr>system_load := 95\<rparr>) (0, [])
     = (Inr (), (ECommerceApp_init ''https://shop'')\<lparr>system_load := 95\<rparr>,
        (0, [Logged INFO ''--- Fetching Tier 3 (Recommendations) ---'',
             Logged WARNING ''Load shedding active! System under heavy load. Gracefully disabling recommendations.'']))
   \<and> load_recommendations (sim_env (Inr slow_handler))
      ((ECommerceApp_init ''https://shop'')\<lparr>system_load := 80\<rparr>) (0, [])
     = (Inr (), (ECommerceApp_init ''https://shop'')\<lparr>system_load := 80\<rparr>,
        (0, [Logged INFO ''--- Fetching Tier 3 (Recommendations) ---'', Invoked,
             Logged INFO ''Graceful degradation: Recommendations area hidden from UI.'']))"
proof -
  let ?E = "sim_env (Inr slow_handler)"
  let ?hot = "(ECommerceApp_init ''https://shop'')\<lparr>system_load := 95\<rparr>"
  let ?calm = "(ECommerceApp_init ''https://shop'')\<lparr>system_load := 80\<rparr>"
  have h1: "80 < system_load ?hot" by simp
  have h2: "\<not> 80 < system_load ?calm" by simp
  note a = load_shedding [where app = ?hot and env = ?E and s = "(0, [])", THEN conjunct1, THEN mp, OF h1]
  note b = load_shedding [where app = ?calm and env = ?E and s = "(0, [])", THEN conjunct2, THEN conjunct1,
      THEN mp, OF h2]
  from a b show ?thesis by simp
qed

text \<open>
  C7. Whatever the transport does and whatever state the breaker is in,
  \<^verbatim>\<open>load_reviews\<close> and \<^verbatim>\<open>load_recommendations\<close> raise nothing (the exceptions modelled
  are the subclasses of \<^verbatim>\<open>Exception\<close>, which \<^verbatim>\<open>except Exception\<close> catches): each
  returns \<^verbatim>\<open>None\<close>, and the last record it logs is the success message or the fallback
  message for the reviews, and the success, the degradation or the load-shedding
  message for the recommendations.
\<close>

theorem tiers_never_raise:
  "fst (load_reviews env app s) = Inr ()
   \<and> ((\<exists>m. last (snd (snd (snd (load_reviews env app s)))) = Logged INFO (''Success: '' @ m))
      \<or> last (snd (snd (snd (load_reviews env app s))))
           = Logged INFO ''Fallback activated: Displaying cached user reviews instead of live data.'')
   \<and> fst (load_recommendations env app s) = Inr ()
   \<and> ((\<exists>m. last (snd (snd (snd (load_recommendations env app s)))) = Logged INFO (''Success: '' @ m))
      \<or> last (snd (snd (snd (load_recommendations env app s))))
           = Logged INFO ''Graceful degradation: Recommendations area hidden from UI.''
      \<or> last (snd (snd (snd (load_recommendations env app s))))
           = Logged WARNING ''Load shedding active! System under heavy load. Gracefully disabling recommendations.'')"
proof -
  let ?s1 = "log INFO ''--- Fetching Tier 2 (User Reviews) ---'' s"
  obtain out cb s2 where c: "call env (requests_get env (base_url app @ ''/unreliable''))
                (unreliable_circuit_breaker app) ?s1 = (out, cb, s2)"
    by (cases "call env (requests_get env (base_url app @ ''/unreliable''))
                 (unreliable_circuit_breaker app) ?s1")
  have a: "fst (load_reviews env app s) = Inr ()
       \<and> ((\<exists>m. last (snd (snd (snd (load_reviews env app s)))) = Logged INFO (''Success: '' @ m))
          \<or> last (snd (snd (snd (load_reviews env app s))))
               = Logged INFO ''Fallback activated: Displaying cached user reviews instead of live data.'')"
    using c by (cases "message_of out") (simp_all add: load_reviews_def Let_def log_def)
  let ?t1 = "log INFO ''--- Fetching Tier 3 (Recommendations) ---'' s"
  obtain out' s2' where d: "fetch_recommendations_with_retry env app ?t1 = (out', s2')"
    by (cases "fetch_recommendations_with_retry env app ?t1")
  have b: "fst (load_recommendations env app s) = Inr ()
       \<and> ((\<exists>m. last (snd (snd (snd (load_recommendations env app s)))) = Logged INFO (''Success: '' @ m))
          \<or> last (snd (snd (snd (load_recommendations env app s))))
               = Logged INFO ''Graceful degradation: Recommendations area hidden from UI.''
          \<or> last (snd (snd (snd (load_recommendations env app s))))
               = Logged WARNING ''Load shedding active! System under heavy load. Gracefully disabling recommendations.'')"
    using d by (cases "message_of_opt out'") (simp_all add: load_recommendations_def Let_def log_def)
  from a b show ?thesis by simp
qed

theorem tiers_never_raise_witness:
  "load_reviews (sim_env (Inl Timeout)) (ECommerceApp_init ''https://shop'') (0, [])
     = (Inr (),
        (ECommerceApp_init ''https://shop'')
          \<lparr>unreliable_circuit_breaker :=
             \<lparr>failure_threshold = 2, recovery_timeout = 5, failure_count = 1, state = CLOSED,
              last_failure_time = Some 1\<rparr>\<rparr>,
        (1, [Logged INFO ''--- Fetching Tier 2 (User Reviews) ---'', Invoked,
             Logged ERROR ''Request failed. Failure count: 1'',
             Logged INFO ''Fallback activated: Displaying cached user reviews instead of live data.'']))
   \<and> fst (load_reviews (sim_env (Inl Timeout)) (ECommerceApp_init ''https://shop'') (0, [])) = Inr ()
   \<and> fst (load_recommendations (sim_env (Inl Timeout)) (ECommerceApp_init ''https://shop'') (0, [])) = Inr ()"
proof -
  let ?E = "sim_env (Inl Timeout)"
  let ?app = "ECommerceApp_init ''https://shop''"
  note t = tiers_never_raise [where env = ?E and app = ?app and s = "(0, [])"]
  have "load_reviews ?E ?app (0, [])
     = (Inr (),
        ?app\<lparr>unreliable_circuit_breaker :=
             \<lparr>failure_threshold = 2, recovery_timeout = 5, failure_count = 1, state = CLOSED,
              last_failure_time = Some 1\<rparr>\<rparr>,
        (1, [Logged INFO ''--- Fetching Tier 2 (User Reviews) ---'', Invoked,
             Logged ERROR ''Request failed. Failure count: 1'',
             Logged INFO ''Fallback activated: Displaying cached user reviews instead of live data.'']))"
    by (simp add: app_eval breaker_eval)
  with t [THEN conjunct1] t [THEN conjunct2, THEN conjunct2, THEN conjunct1]
  show ?thesis by blast
qed

text \<open>
  C8, as the code has it. When the request of \<^verbatim>\<open>view_product\<close> raises, the method
  catches the exception, logs one record at level \<^verbatim>\<open>CRITICAL\<close> and returns \<^verbatim>\<open>None\<close>:
  the failure is reported in the log and nothing is retried or replaced (one
  invocation, no sleep, the application object unchanged), and no exception reaches the
  caller.
\<close>

theorem view_product_failure:
  assumes "requests_get env (base_url app @ ''/healthy'') (fst s) = (Inl e, w1)"
  shows "view_product env app s
       = (Inr (), app,
          (w1, snd s @ [Logged INFO ''--- Fetching Tier 1 (Product Info) ---'', Invoked,
             Logged CRITICAL ''Tier 1 Failed! Entire site is down.'']))"
  using assms by (simp add: view_product_def message_of_def log_def Let_def)

theorem view_product_failure_witness:
  "view_product (sim_env (Inl RequestException)) (ECommerceApp_init ''https://shop'') (0, [])
     = (Inr (), ECommerceApp_init ''https://shop'',
        (1, [Logged INFO ''--- Fetching Tier 1 (Product Info) ---'', Invoked,
             Logged CRITICAL ''Tier 1 Failed! Entire site is down.'']))"
proof -
  let ?E = "sim_env (Inl RequestException)"
  let ?app = "ECommerceApp_init ''https://shop''"
  have h: "requests_get ?E (base_url ?app @ ''/healthy'') (fst (0::real, [] :: event list))
             = (Inl RequestException, 1)"
    by (simp add: sim_env_def)
  from view_product_failure [OF h] show ?thesis by simp
qed

text \<open>
  The claim C8 says the failure is surfaced to the caller of \<^verbatim>\<open>view_product\<close> and not
  absorbed. With a transport that times out, the method returns as it does with one
  that answers: the caller receives \<^verbatim>\<open>None\<close> both times, and no exception.
\<close>

theorem view_product_counterexample:
  "fst (view_product (sim_env (Inl Timeout)) (ECommerceApp_init ''https://shop'') (0, [])) = Inr ()
   \<and> fst (view_product (sim_env (Inr healthy_handler)) (ECommerceApp_init ''https://shop'') (0, [])) = Inr ()
   \<and> \<not> isl (fst (view_product (sim_env (Inl Timeout)) (ECommerceApp_init ''https://shop'') (0, [])))"
  by (simp add: app_eval sim_env_def unreliable_handler_def healthy_handler_def log_def Let_def)

end
